theory Spec2Isabelle
  imports Main "HOL-Library.AList"
begin

section \<open>The TOML adapter of config-file: parsers/toml-parser\<close>

subsection \<open>Parsed content\<close>

text \<open>
  What \<^verbatim>\<open>toml.loads\<close> hands back is a Python \<^verbatim>\<open>dict\<close> whose values are
  strings, integers, floats, booleans, dates, lists and further dicts. A dict keeps
  insertion order, so it is an association list here; a float and a date are carried as
  the literal they were read from, since the adapter never computes with them.
\<close>

datatype tval =
    TStr string
  | TInt int
  | TFloat string
  | TBool bool
  | TDatetime string
  | TList "tval list"
  | TDict "(string \<times> tval) list"

text \<open>
  The exceptions that can leave the adapter. \<^verbatim>\<open>ParsingError\<close> is raised in the
  source with two kinds of argument: a formatted message, and the decode error it wraps.
\<close>

datatype py_error =
    KeyError string
  | TypeError
  | NameError string
  | TomlDecodeError string
  | ParsingError exc_arg
and exc_arg =
    Message string
  | Wrapped py_error
  | NoDetail

record toml_parser =
  parsed_content :: tval

subsection \<open>Python's subscript operations with a string key\<close>

text \<open>
  \<^verbatim>\<open>node[key]\<close>, \<^verbatim>\<open>node[key] = value\<close> and \<^verbatim>\<open>del node[key]\<close> for a key that is
  a \<^verbatim>\<open>str\<close>. Only a dict accepts a string subscript: a list and a string want an
  integer, and numbers, booleans and dates are not subscriptable at all; each of those
  raises \<^verbatim>\<open>TypeError\<close>. A dict raises \<^verbatim>\<open>KeyError\<close> when the key is absent on a
  read or a delete. An assignment replaces the value of a key in place, or appends the
  key at the end.
\<close>

fun getitem :: "tval \<Rightarrow> string \<Rightarrow> py_error + tval" where
  "getitem (TDict kvs) key =
     (case map_of kvs key of None \<Rightarrow> Inl (KeyError key) | Some v \<Rightarrow> Inr v)"
| "getitem _ key = Inl TypeError"

fun setitem :: "tval \<Rightarrow> string \<Rightarrow> tval \<Rightarrow> py_error + tval" where
  "setitem (TDict kvs) key v = Inr (TDict (AList.update key v kvs))"
| "setitem _ key v = Inl TypeError"

fun delitem :: "tval \<Rightarrow> string \<Rightarrow> py_error + tval" where
  "delitem (TDict kvs) key =
     (case map_of kvs key of
        None \<Rightarrow> Inl (KeyError key)
      | Some _ \<Rightarrow> Inr (TDict (AList.delete key kvs)))"
| "delitem _ key = Inl TypeError"

subsection \<open>parse\<close>

text \<open>
  \<^verbatim>\<open>toml.loads\<close> belongs to the TOML library, so it is a parameter: a function from
  the text to the decoded tree or to the exception the library raised. \<^verbatim>\<open>parse\<close>
  catches \<^verbatim>\<open>toml.TomlDecodeError\<close> and nothing else, and raises a
  \<^verbatim>\<open>ParsingError\<close> built from the caught exception.
\<close>

definition parse :: "(string \<Rightarrow> py_error + tval) \<Rightarrow> string \<Rightarrow> py_error + tval" where
  "parse toml_loads file_contents =
     (case toml_loads file_contents of
        Inr tree \<Rightarrow> Inr tree
      | Inl (TomlDecodeError m) \<Rightarrow> Inl (ParsingError (Wrapped (TomlDecodeError m)))
      | Inl e \<Rightarrow> Inl e)"

subsection \<open>The helpers the adapter imports\<close>

text \<open>
  Modelled from the spec: \<^verbatim>\<open>split_on_dot\<close> is in config_file/utils and not among the
  sources. The spec: it splits on \<^verbatim>\<open>.\<close> while respecting backslash-escaped dots, and
  fails with \<^verbatim>\<open>ParsingError\<close> if the key is empty. A dot right after a backslash
  stays in its segment, with the backslash; the spec gives no message for the error.
\<close>

fun split_from :: "string \<Rightarrow> string \<Rightarrow> string list" where
  "split_from seg [] = [seg]"
| "split_from seg [c] = (if c = CHR ''.'' then [seg, []] else [seg @ [c]])"
| "split_from seg (c # d # cs) =
     (if c = CHR ''.'' then seg # split_from [] (d # cs)
      else if c = CHR 0x5C \<and> d = CHR ''.'' then split_from (seg @ [c, d]) cs
      else split_from (seg @ [c]) (d # cs))"

definition split_on_dot :: "string \<Rightarrow> py_error + string list" where
  "split_on_dot key =
     (if key = [] then Inl (ParsingError NoDetail) else Inr (split_from [] key))"

text \<open>
  Modelled from the spec: \<^verbatim>\<open>nested_lookup\<close> and \<^verbatim>\<open>get_occurrence_of_key\<close> are in
  config_file/nested_lookup and not among the sources. The spec's \<^verbatim>\<open>lookup_all\<close>
  visits every mapping and sequence node and, for each mapping entry whose key equals the
  leaf key, collects its value: depth first, pre-order, in insertion order and then in
  index order, descending into the entry's own value; it never fails. The spec's
  \<^verbatim>\<open>count_occurrences\<close> is the same traversal and returns the number of matches.
\<close>

fun nested_lookup :: "string \<Rightarrow> tval \<Rightarrow> tval list" where
  "nested_lookup key (TDict kvs) =
     concat (map (\<lambda>(k, v). (if k = key then [v] else []) @ nested_lookup key v) kvs)"
| "nested_lookup key (TList xs) = concat (map (nested_lookup key) xs)"
| "nested_lookup key _ = []"

fun get_occurrence_of_key :: "tval \<Rightarrow> string \<Rightarrow> nat" where
  "get_occurrence_of_key (TDict kvs) key =
     sum_list (map (\<lambda>(k, v). (if k = key then 1 else 0) + get_occurrence_of_key v key) kvs)"
| "get_occurrence_of_key (TList xs) key = sum_list (map (\<lambda>x. get_occurrence_of_key x key) xs)"
| "get_occurrence_of_key _ key = 0"

text \<open>
  Modelled from the spec: \<^verbatim>\<open>nested_update\<close> and \<^verbatim>\<open>nested_delete\<close> are in
  config_file/nested_lookup and not among the sources. The spec's \<^verbatim>\<open>update_all\<close> and
  \<^verbatim>\<open>delete_all\<close> run the same traversal and, for every mapping entry whose key equals
  the leaf key, replace its value or remove the entry; the adapter calls them in place,
  so the tree they return is the parsed content afterwards.
\<close>

fun nested_update :: "tval \<Rightarrow> string \<Rightarrow> tval \<Rightarrow> tval" where
  "nested_update (TDict kvs) key v =
     TDict (map (\<lambda>(k, c). if k = key then (k, v) else (k, nested_update c key v)) kvs)"
| "nested_update (TList xs) key v = TList (map (\<lambda>x. nested_update x key v) xs)"
| "nested_update t key v = t"

fun nested_delete :: "tval \<Rightarrow> string \<Rightarrow> tval" where
  "nested_delete (TDict kvs) key =
     TDict (map (\<lambda>(k, c). (k, nested_delete c key)) (filter (\<lambda>(k, c). k \<noteq> key) kvs))"
| "nested_delete (TList xs) key = TList (map (\<lambda>x. nested_delete x key) xs)"
| "nested_delete t key = t"

text \<open>
  Modelled from the spec: \<^verbatim>\<open>parse_value\<close> is in config_file/parsers and not among the
  sources. The spec's Value Coercion takes a raw string: \<^verbatim>\<open>true\<close> and \<^verbatim>\<open>false\<close>
  in any case give a boolean; else an integer pattern gives an integer; else a float
  pattern gives a float; else a string with the list delimiter (a comma) gives the
  sequence of its coerced elements, trimmed of surrounding whitespace; else the string is
  returned unchanged. The adapter applies it element-wise to a sequence. The patterns are
  decimal digits with an optional sign, for a float with one dot between two runs of
  digits; a value that is not a string is already native and is returned as it is.
\<close>

definition lower :: "string \<Rightarrow> string" where
  "lower s =
     map (\<lambda>c. if c \<in> set ''ABCDEFGHIJKLMNOPQRSTUVWXYZ'' then char_of (of_char c + (32::nat)) else c) s"

definition is_digits :: "string \<Rightarrow> bool" where
  "is_digits s = (s \<noteq> [] \<and> list_all (\<lambda>c. c \<in> set ''0123456789'') s)"

definition digits_value :: "string \<Rightarrow> int" where
  "digits_value s = foldl (\<lambda>n c. 10 * n + (int (of_char c) - 48)) 0 s"

definition unsigned :: "string \<Rightarrow> string" where
  "unsigned s =
     (case s of [] \<Rightarrow> [] | c # r \<Rightarrow> if c = CHR ''-'' \<or> c = CHR ''+'' then r else s)"

definition int_pattern :: "string \<Rightarrow> bool" where
  "int_pattern s = is_digits (unsigned s)"

definition int_value :: "string \<Rightarrow> int" where
  "int_value s =
     (case s of
        [] \<Rightarrow> 0
      | c # r \<Rightarrow> if c = CHR ''-'' then - digits_value r else digits_value (unsigned s))"

definition float_pattern :: "string \<Rightarrow> bool" where
  "float_pattern s =
     (let u = unsigned s;
          whole = takeWhile (\<lambda>c. c \<noteq> CHR ''.'') u;
          rest = dropWhile (\<lambda>c. c \<noteq> CHR ''.'') u
      in is_digits whole \<and> rest \<noteq> [] \<and> is_digits (tl rest))"

definition strip :: "string \<Rightarrow> string" where
  "strip s =
     rev (dropWhile (\<lambda>c. c \<in> set [CHR '' '', CHR 0x09, CHR 0x0A, CHR 0x0D])
       (rev (dropWhile (\<lambda>c. c \<in> set [CHR '' '', CHR 0x09, CHR 0x0A, CHR 0x0D]) s)))"

fun split_comma :: "string \<Rightarrow> string \<Rightarrow> string list" where
  "split_comma seg [] = [seg]"
| "split_comma seg (c # cs) =
     (if c = CHR '','' then seg # split_comma [] cs else split_comma (seg @ [c]) cs)"

definition coerce_scalar :: "string \<Rightarrow> tval" where
  "coerce_scalar raw =
     (if lower raw = ''true'' then TBool True
      else if lower raw = ''false'' then TBool False
      else if int_pattern raw then TInt (int_value raw)
      else if float_pattern raw then TFloat raw
      else TStr raw)"

definition coerce :: "string \<Rightarrow> tval" where
  "coerce raw =
     (if lower raw = ''true'' then TBool True
      else if lower raw = ''false'' then TBool False
      else if int_pattern raw then TInt (int_value raw)
      else if float_pattern raw then TFloat raw
      else if CHR '','' \<in> set raw then TList (map (\<lambda>e. coerce_scalar (strip e)) (split_comma [] raw))
      else TStr raw)"

fun parse_value :: "tval \<Rightarrow> tval" where
  "parse_value (TList xs) = TList (map parse_value xs)"
| "parse_value (TStr raw) = coerce raw"
| "parse_value v = v"

subsection \<open>get\<close>

text \<open>
  The dotted branch of \<^verbatim>\<open>get\<close> runs a \<^verbatim>\<open>for\<close> loop over the segments. The loop
  variable is named \<^verbatim>\<open>key\<close>, so it rebinds the parameter \<^verbatim>\<open>key\<close>; the loop state
  is the triple of \<^verbatim>\<open>key\<close>, \<^verbatim>\<open>key_for_error\<close> (initially \<^verbatim>\<open>None\<close>) and
  \<^verbatim>\<open>result\<close>. An exception leaves the loop with the values the two names have at that
  moment, which the handler formats into its message.
\<close>

fun get_loop ::
  "string \<times> string option \<times> tval \<Rightarrow> string list \<Rightarrow> (py_error \<times> string \<times> string option) + tval" where
  "get_loop (key, key_for_error, result) [] = Inr result"
| "get_loop (key, key_for_error, result) (k # split_keys) =
     (let key = k; key_for_error = Some key
      in case getitem result key of
           Inl e \<Rightarrow> Inl (e, key, key_for_error)
         | Inr result \<Rightarrow> get_loop (key, key_for_error, result) split_keys)"

fun format_opt :: "string option \<Rightarrow> string" where
  "format_opt None = ''None''"
| "format_opt (Some s) = s"

definition get :: "toml_parser \<Rightarrow> string \<Rightarrow> bool \<Rightarrow> bool \<Rightarrow> py_error + tval" where
  "get self key parse_types all =
     (case
        (if all then Inr (TList (nested_lookup key (parsed_content self)))
         else if CHR ''.'' \<in> set key then
           (case split_on_dot key of
              Inl e \<Rightarrow> Inl e
            | Inr split_keys \<Rightarrow>
                (case get_loop (key, None, parsed_content self) split_keys of
                   Inr result \<Rightarrow> Inr result
                 | Inl (TypeError, key, key_for_error) \<Rightarrow>
                     Inl (ParsingError (Message
                       (''Cannot get '' @ key @ '' because '' @ format_opt key_for_error
                          @ '' is not subscriptable.'')))
                 | Inl (e, _, _) \<Rightarrow> Inl e))
         else getitem (parsed_content self) key)
      of
        Inl e \<Rightarrow> Inl e
      | Inr result \<Rightarrow> Inr (if parse_types then parse_value result else result))"

subsection \<open>set and delete\<close>

text \<open>
  The parsed content is a tree of dict objects that the adapter mutates in place. A
  reference into it is the path of keys from the root together with the object found
  there; \<^verbatim>\<open>ref = ref[key]\<close> moves the reference one level down and writes nothing.
  A write through the reference replaces the object at that path inside the root.
\<close>

fun write_at :: "tval \<Rightarrow> string list \<Rightarrow> tval \<Rightarrow> tval" where
  "write_at t [] n = n"
| "write_at (TDict kvs) (k # ks) n =
     (case map_of kvs k of
        None \<Rightarrow> TDict kvs
      | Some c \<Rightarrow> TDict (AList.update k (write_at c ks n) kvs))"
| "write_at t (k # ks) n = t"

text \<open>
  The loops of \<^verbatim>\<open>set\<close> and \<^verbatim>\<open>delete\<close>: \<^verbatim>\<open>index == indexes_length - 1\<close> holds at the
  last segment only, where the loop writes and breaks; every earlier segment is read.
  The loop returns its outcome and the parsed content as it is when the loop is left.
\<close>

fun set_loop ::
  "tval \<Rightarrow> string list \<Rightarrow> tval \<Rightarrow> string list \<Rightarrow> tval \<Rightarrow> (py_error + unit) \<times> tval" where
  "set_loop content path ref [] v = (Inr (), content)"
| "set_loop content path ref [key] v =
     (case setitem ref key v of
        Inl e \<Rightarrow> (Inl e, content)
      | Inr ref' \<Rightarrow> (Inr (), write_at content path ref'))"
| "set_loop content path ref (key # indexes) v =
     (case getitem ref key of
        Inl e \<Rightarrow> (Inl e, content)
      | Inr ref' \<Rightarrow> set_loop content (path @ [key]) ref' indexes v)"

fun delete_loop ::
  "tval \<Rightarrow> string list \<Rightarrow> tval \<Rightarrow> string list \<Rightarrow> (py_error + unit) \<times> tval" where
  "delete_loop content path ref [] = (Inr (), content)"
| "delete_loop content path ref [key] =
     (case delitem ref key of
        Inl e \<Rightarrow> (Inl e, content)
      | Inr ref' \<Rightarrow> (Inr (), write_at content path ref'))"
| "delete_loop content path ref (key # indexes) =
     (case getitem ref key of
        Inl e \<Rightarrow> (Inl e, content)
      | Inr ref' \<Rightarrow> delete_loop content (path @ [key]) ref' indexes)"

text \<open>
  Both operations return the outcome together with the adapter as it is afterwards.
\<close>

definition set_toml ::
  "toml_parser \<Rightarrow> string \<Rightarrow> tval \<Rightarrow> bool \<Rightarrow> (py_error + bool) \<times> toml_parser" where
  "set_toml self key v all =
     (if all then (Inr True, self\<lparr>parsed_content := nested_update (parsed_content self) key v\<rparr>)
      else if CHR ''.'' \<in> set key then
        (case split_on_dot key of
           Inl e \<Rightarrow> (Inl e, self)
         | Inr indexes \<Rightarrow>
             (case set_loop (parsed_content self) [] (parsed_content self) indexes v of
                (Inl e, content) \<Rightarrow> (Inl e, self\<lparr>parsed_content := content\<rparr>)
              | (Inr _, content) \<Rightarrow> (Inr True, self\<lparr>parsed_content := content\<rparr>)))
      else
        (case setitem (parsed_content self) key v of
           Inl e \<Rightarrow> (Inl e, self)
         | Inr content \<Rightarrow> (Inr True, self\<lparr>parsed_content := content\<rparr>)))"

definition delete ::
  "toml_parser \<Rightarrow> string \<Rightarrow> bool \<Rightarrow> (py_error + bool) \<times> toml_parser" where
  "delete self key all =
     (if all then (Inr True, self\<lparr>parsed_content := nested_delete (parsed_content self) key\<rparr>)
      else if CHR ''.'' \<in> set key then
        (case split_on_dot key of
           Inl e \<Rightarrow> (Inl e, self)
         | Inr indexes \<Rightarrow>
             (case delete_loop (parsed_content self) [] (parsed_content self) indexes of
                (Inl e, content) \<Rightarrow> (Inl e, self\<lparr>parsed_content := content\<rparr>)
              | (Inr _, content) \<Rightarrow> (Inr True, self\<lparr>parsed_content := content\<rparr>)))
      else
        (case delitem (parsed_content self) key of
           Inl e \<Rightarrow> (Inl e, self)
         | Inr content \<Rightarrow> (Inr True, self\<lparr>parsed_content := content\<rparr>)))"

subsection \<open>stringify and has\<close>

text \<open>
  \<^verbatim>\<open>stringify\<close> evaluates \<^verbatim>\<open>json.dumps(self.parsed_content, indent=4)\<close>. The name
  \<^verbatim>\<open>json\<close> is neither local nor a builtin, so it is looked up among the names the
  module binds: those of its import statements and of its class. The module has no
  \<^verbatim>\<open>import json\<close>, and a name that is not bound raises \<^verbatim>\<open>NameError\<close>.
  \<^verbatim>\<open>json.dumps\<close> itself belongs to the standard library and is a parameter.
\<close>

definition module_names :: "string list" where
  "module_names =
     [''toml'', ''get_occurrence_of_key'', ''nested_delete'', ''nested_lookup'',
      ''nested_update'', ''ParsingError'', ''BaseParser'', ''parse_value'', ''split_on_dot'',
      ''TomlParser'']"

definition stringify :: "(tval \<Rightarrow> nat \<Rightarrow> string) \<Rightarrow> toml_parser \<Rightarrow> py_error + string" where
  "stringify json_dumps self =
     (if ''json'' \<in> set module_names then Inr (json_dumps (parsed_content self) 4)
      else Inl (NameError ''json''))"

definition has :: "toml_parser \<Rightarrow> string \<Rightarrow> bool" where
  "has self search_key = (get_occurrence_of_key (parsed_content self) search_key > 0)"

subsection \<open>Paths into the tree, and the lookup the spec describes\<close>

text \<open>
  \<open>walk\<close> is the bare descent \<^verbatim>\<open>node = node[k]\<close> over a list of segments, with the
  exception of the first subscript that fails; the theorems use it to say where a path
  leads. \<open>is_dict\<close> tells the nodes that take a string subscript from the others, and
  \<open>mapping_keys\<close> lists every key of every mapping of a tree.
\<close>

fun walk :: "tval \<Rightarrow> string list \<Rightarrow> py_error + tval" where
  "walk node [] = Inr node"
| "walk node (k # ks) =
     (case getitem node k of Inl e \<Rightarrow> Inl e | Inr child \<Rightarrow> walk child ks)"

fun is_dict :: "tval \<Rightarrow> bool" where
  "is_dict (TDict kvs) = True"
| "is_dict v = False"

fun mapping_keys :: "tval \<Rightarrow> string list" where
  "mapping_keys (TDict kvs) = concat (map (\<lambda>(k, v). k # mapping_keys v) kvs)"
| "mapping_keys (TList xs) = concat (map mapping_keys xs)"
| "mapping_keys _ = []"

text \<open>
  The spec's \<^verbatim>\<open>lookup_path(tree, segments)\<close> descends one segment at a time and fails
  with \<^verbatim>\<open>ParsingError\<close>, naming the segment, where the node it has reached is not
  subscriptable; the wording of the message is the source's. The spec's routing of
  \<^verbatim>\<open>get\<close>: \<^verbatim>\<open>all=true\<close> is \<^verbatim>\<open>lookup_all\<close>, else a key with the delimiter is
  \<^verbatim>\<open>lookup_path\<close> over \<^verbatim>\<open>split_on_dot(key)\<close>, else a direct single-level lookup.
  Both follow the spec, to be compared with \<open>get\<close>.
\<close>

fun lookup_path :: "tval \<Rightarrow> string list \<Rightarrow> py_error + tval" where
  "lookup_path tree [] = Inr tree"
| "lookup_path tree (segment # segments) =
     (case getitem tree segment of
        Inr node \<Rightarrow> lookup_path node segments
      | Inl TypeError \<Rightarrow>
          Inl (ParsingError (Message
            (''Cannot get '' @ segment @ '' because '' @ segment @ '' is not subscriptable.'')))
      | Inl e \<Rightarrow> Inl e)"

definition routed_lookup :: "tval \<Rightarrow> string \<Rightarrow> bool \<Rightarrow> py_error + tval" where
  "routed_lookup tree key all =
     (if all then Inr (TList (nested_lookup key tree))
      else if CHR ''.'' \<in> set key then
        (case split_on_dot key of
           Inl e \<Rightarrow> Inl e
         | Inr segments \<Rightarrow> lookup_path tree segments)
      else getitem tree key)"

section \<open>Auxiliary facts\<close>

lemma walk_append:
  "walk node (p @ q) = (case walk node p of Inl e \<Rightarrow> Inl e | Inr n \<Rightarrow> walk n q)"
  by (induction p arbitrary: node) (auto split: sum.splits)

lemma split_from_nonempty: "split_from seg s \<noteq> []"
  by (induction seg s rule: split_from.induct) auto

lemma split_on_dot_nonempty: "split_on_dot key = Inr segs \<Longrightarrow> segs \<noteq> []"
  by (auto simp: split_on_dot_def split_from_nonempty split: if_splits)

lemma getitem_not_dict: "\<not> is_dict node \<Longrightarrow> getitem node k = Inl TypeError"
  by (cases node) simp_all

lemma walk_write_at:
  "walk content p = Inr n \<Longrightarrow> walk (write_at content p n') p = Inr n'"
proof (induction p arbitrary: content)
  case Nil
  then show ?case by simp
next
  case (Cons k ks)
  then show ?case
    by (cases content) (auto simp: update_conv' split: option.splits sum.splits)
qed

text \<open>
  The loop of \<open>get\<close> with its handler is the spec's descent: whatever the two names hold
  on entry, a \<^verbatim>\<open>TypeError\<close> is reported with the segment being subscripted.
\<close>

lemma get_loop_lookup_path:
  "(case get_loop (key, kfe, result) segs of
      Inr r \<Rightarrow> Inr r
    | Inl (TypeError, k, kf) \<Rightarrow>
        Inl (ParsingError (Message
          (''Cannot get '' @ k @ '' because '' @ format_opt kf @ '' is not subscriptable.'')))
    | Inl (e, _, _) \<Rightarrow> Inl e) = lookup_path result segs"
proof (induction segs arbitrary: key kfe result)
  case Nil
  show ?case by simp
next
  case (Cons s segs)
  show ?case
  proof (cases "getitem result s")
    case (Inl e)
    then show ?thesis by (cases e) simp_all
  next
    case (Inr r)
    with Cons show ?thesis by simp
  qed
qed

lemma get_routed:
  "get self key parse_types all =
     (case routed_lookup (parsed_content self) key all of
        Inl e \<Rightarrow> Inl e
      | Inr r \<Rightarrow> Inr (if parse_types then parse_value r else r))"
proof -
  have "(if all then Inr (TList (nested_lookup key (parsed_content self)))
         else if CHR ''.'' \<in> set key then
           (case split_on_dot key of
              Inl e \<Rightarrow> Inl e
            | Inr split_keys \<Rightarrow>
                (case get_loop (key, None, parsed_content self) split_keys of
                   Inr result \<Rightarrow> Inr result
                 | Inl (TypeError, key, key_for_error) \<Rightarrow>
                     Inl (ParsingError (Message
                       (''Cannot get '' @ key @ '' because '' @ format_opt key_for_error
                          @ '' is not subscriptable.'')))
                 | Inl (e, _, _) \<Rightarrow> Inl e))
         else getitem (parsed_content self) key) = routed_lookup (parsed_content self) key all"
    unfolding routed_lookup_def
    by (simp add: get_loop_lookup_path split: sum.splits)
  then show ?thesis unfolding get_def by simp
qed

lemma lookup_path_walk_TypeError:
  "walk tree pre = Inr node \<Longrightarrow> \<not> is_dict node \<Longrightarrow>
   lookup_path tree (pre @ seg # post) =
     Inl (ParsingError (Message
       (''Cannot get '' @ seg @ '' because '' @ seg @ '' is not subscriptable.'')))"
  by (induction pre arbitrary: tree) (auto simp: getitem_not_dict split: sum.splits)

lemma lookup_path_walk_KeyError:
  "walk tree pre = Inr (TDict kvs) \<Longrightarrow> map_of kvs seg = None \<Longrightarrow>
   lookup_path tree (pre @ seg # post) = Inl (KeyError seg)"
  by (induction pre arbitrary: tree) (auto split: sum.splits)

lemma walk_snoc: "walk t pre = Inr n \<Longrightarrow> walk t (pre @ [l]) = getitem n l"
  by (simp add: walk_append split: sum.splits)

lemma walk_absent:
  "walk t p = Inr (TDict kvs) \<Longrightarrow> map_of kvs s = None \<Longrightarrow> walk t (p @ s # q) = Inl (KeyError s)"
  by (simp add: walk_append)

lemma delitem_not_dict: "\<not> is_dict node \<Longrightarrow> delitem node k = Inl TypeError"
  by (cases node) simp_all

lemma setitem_not_dict: "\<not> is_dict node \<Longrightarrow> setitem node k v = Inl TypeError"
  by (cases node) simp_all

text \<open>
  The loops of \<open>set\<close> and \<open>delete\<close> read their way down to the parent of the last
  segment and write there once; a loop that fails returns the content it was given.
\<close>

lemma set_loop_walk:
  "set_loop content path ref (pre @ [l]) v =
     (case walk ref pre of
        Inl e \<Rightarrow> (Inl e, content)
      | Inr parent \<Rightarrow>
          (case setitem parent l v of
             Inl e \<Rightarrow> (Inl e, content)
           | Inr parent' \<Rightarrow> (Inr (), write_at content (path @ pre) parent')))"
proof (induction pre arbitrary: path ref)
  case Nil
  then show ?case by (simp split: sum.splits)
next
  case (Cons k ks)
  then show ?case
    by (cases "ks @ [l]") (auto split: sum.splits)
qed

lemma delete_loop_walk:
  "delete_loop content path ref (pre @ [l]) =
     (case walk ref pre of
        Inl e \<Rightarrow> (Inl e, content)
      | Inr parent \<Rightarrow>
          (case delitem parent l of
             Inl e \<Rightarrow> (Inl e, content)
           | Inr parent' \<Rightarrow> (Inr (), write_at content (path @ pre) parent')))"
proof (induction pre arbitrary: path ref)
  case Nil
  then show ?case by (simp split: sum.splits)
next
  case (Cons k ks)
  then show ?case
    by (cases "ks @ [l]") (auto split: sum.splits)
qed

lemma set_loop_failure:
  "fst (set_loop content path ref indexes v) = Inl e \<Longrightarrow>
   snd (set_loop content path ref indexes v) = content"
  by (induction content path ref indexes v rule: set_loop.induct) (auto split: sum.splits)

lemma delete_loop_failure:
  "fst (delete_loop content path ref indexes) = Inl e \<Longrightarrow>
   snd (delete_loop content path ref indexes) = content"
  by (induction content path ref indexes rule: delete_loop.induct) (auto split: sum.splits)

text \<open>
  The two models of the occurrence helpers agree with each other and with the keys of the
  tree: the count is the number of values \<open>nested_lookup\<close> collects.
\<close>

lemma occurrences_count_list:
  "get_occurrence_of_key t key = count_list (mapping_keys t) key"
proof (induction t)
  case (TList xs)
  then show ?case by (induction xs) auto
next
  case (TDict kvs)
  then have "\<forall>p \<in> set kvs. get_occurrence_of_key (snd p) key = count_list (mapping_keys (snd p)) key"
    by auto
  then show ?case by (induction kvs) (auto split: prod.splits)
qed simp_all

lemma occurrences_length_lookup:
  "get_occurrence_of_key t key = length (nested_lookup key t)"
proof (induction t)
  case (TList xs)
  then show ?case by (induction xs) auto
next
  case (TDict kvs)
  then have "\<forall>p \<in> set kvs. get_occurrence_of_key (snd p) key = length (nested_lookup key (snd p))"
    by auto
  then show ?case by (induction kvs) (auto split: prod.splits)
qed simp_all

section \<open>The claims\<close>

text \<open>
  C1. The claim: for every TOML text that parses, \<^verbatim>\<open>stringify()\<close> on the adapter built
  from it, before any \<^verbatim>\<open>set\<close> or \<^verbatim>\<open>delete\<close>, returns the text verbatim. The source
  does not do this: whatever the adapter holds, \<^verbatim>\<open>stringify\<close> raises \<^verbatim>\<open>NameError\<close>,
  because the module never imports \<^verbatim>\<open>json\<close>; so it returns no text at all.
\<close>

theorem stringify_raises_NameError:
  "stringify json_dumps self = Inl (NameError ''json'')"
  by (simp add: stringify_def module_names_def)

text \<open>
  C2. With \<^verbatim>\<open>all=False\<close> and a key that contains the delimiter: if the descent over the
  segments reaches, after the segments \<open>pre\<close>, a node that is not a mapping (a scalar
  in particular), then \<^verbatim>\<open>get\<close> fails with \<^verbatim>\<open>ParsingError\<close>, and the message names
  \<open>seg\<close>, the segment at which the descent failed.
\<close>

theorem get_scalar_intermediate:
  assumes "CHR ''.'' \<in> set key"
    and "split_on_dot key = Inr (pre @ seg # post)"
    and "walk (parsed_content self) pre = Inr node"
    and "\<not> is_dict node"
  shows "get self key parse_types False =
           Inl (ParsingError (Message
             (''Cannot get '' @ seg @ '' because '' @ seg @ '' is not subscriptable.'')))"
  using assms
  by (simp add: get_routed routed_lookup_def lookup_path_walk_TypeError)

theorem get_scalar_intermediate_witness:
  "CHR ''.'' \<in> set ''calendar.missing''
   \<and> split_on_dot ''calendar.missing'' = Inr ([''calendar''] @ ''missing'' # [])
   \<and> walk (parsed_content \<lparr>parsed_content = TDict [(''calendar'', TInt 5)]\<rparr>) [''calendar'']
       = Inr (TInt 5)
   \<and> \<not> is_dict (TInt 5)
   \<and> get \<lparr>parsed_content = TDict [(''calendar'', TInt 5)]\<rparr> ''calendar.missing'' False False
       = Inl (ParsingError (Message ''Cannot get missing because missing is not subscriptable.''))"
proof -
  have h1: "CHR ''.'' \<in> set ''calendar.missing''" by simp
  have h2: "split_on_dot ''calendar.missing'' = Inr ([''calendar''] @ ''missing'' # [])"
    by (simp add: split_on_dot_def)
  have h3: "walk (parsed_content \<lparr>parsed_content = TDict [(''calendar'', TInt 5)]\<rparr>) [''calendar'']
      = Inr (TInt 5)" by simp
  have h4: "\<not> is_dict (TInt 5)" by simp
  from get_scalar_intermediate [OF h1 h2 h3 h4, of False] h1 h2 h3 h4
  show ?thesis by simp
qed

text \<open>
  C3, as stated, fails where an intermediate segment resolves to a container that is not
  a mapping: in \<^verbatim>\<open>{a: [1, 2]}\<close> the segment \<^verbatim>\<open>a\<close> of the key \<^verbatim>\<open>a.b\<close> resolves to a
  list, and \<^verbatim>\<open>set\<close> raises \<^verbatim>\<open>TypeError\<close>: it assigns nothing and returns no flag.
\<close>

theorem set_through_list_counterexample:
  "walk (TDict [(''a'', TList [TInt 1, TInt 2])]) [''a''] = Inr (TList [TInt 1, TInt 2])
   \<and> set_toml \<lparr>parsed_content = TDict [(''a'', TList [TInt 1, TInt 2])]\<rparr> ''a.b'' (TInt 3) False
       = (Inl TypeError, \<lparr>parsed_content = TDict [(''a'', TList [TInt 1, TInt 2])]\<rparr>)"
  by (simp add: set_toml_def split_on_dot_def)

text \<open>
  C3, amended. With \<^verbatim>\<open>all=False\<close> and a key that splits into the segments \<open>pre\<close> and a
  last segment \<open>l\<close>: if the segments \<open>pre\<close> lead through mappings to a mapping, the parent,
  then \<^verbatim>\<open>set\<close> returns \<^verbatim>\<open>True\<close>, the tree afterwards is the old one with \<open>v\<close> assigned
  at \<open>l\<close> in that parent, and the path now leads to \<open>v\<close>. If a segment of \<open>pre\<close> is absent
  from the mapping it is looked up in, \<^verbatim>\<open>set\<close> fails with \<^verbatim>\<open>KeyError\<close> and the adapter
  is as before: no level is created. If the path runs into a node that is not a mapping,
  a sequence or a scalar, \<^verbatim>\<open>set\<close> fails with \<^verbatim>\<open>TypeError\<close> and the adapter is as
  before.
\<close>

theorem set_dotted:
  assumes "CHR ''.'' \<in> set key"
    and "split_on_dot key = Inr (pre @ [l])"
  shows "(\<forall>kvs. walk (parsed_content self) pre = Inr (TDict kvs) \<longrightarrow>
            set_toml self key v False =
              (Inr True,
               self\<lparr>parsed_content :=
                 write_at (parsed_content self) pre (TDict (AList.update l v kvs))\<rparr>)
            \<and> walk (write_at (parsed_content self) pre (TDict (AList.update l v kvs))) pre
                = Inr (TDict (AList.update l v kvs))
            \<and> walk (write_at (parsed_content self) pre (TDict (AList.update l v kvs))) (pre @ [l])
                = Inr v)
       \<and> (\<forall>p s q kvs. pre = p @ s # q \<and> walk (parsed_content self) p = Inr (TDict kvs)
              \<and> map_of kvs s = None \<longrightarrow>
            set_toml self key v False = (Inl (KeyError s), self))
       \<and> (\<forall>p q node. pre @ [l] = p @ q \<and> q \<noteq> [] \<and> walk (parsed_content self) p = Inr node
              \<and> \<not> is_dict node \<longrightarrow>
            set_toml self key v False = (Inl TypeError, self))"
proof -
  have st: "set_toml self key v False =
      (case set_loop (parsed_content self) [] (parsed_content self) (pre @ [l]) v of
         (Inl e, content) \<Rightarrow> (Inl e, self\<lparr>parsed_content := content\<rparr>)
       | (Inr _, content) \<Rightarrow> (Inr True, self\<lparr>parsed_content := content\<rparr>))"
    using assms by (simp add: set_toml_def)
  note loop = set_loop_walk [of "parsed_content self" "[]" "parsed_content self" pre l v]
  show ?thesis
  proof (intro conjI allI impI)
    fix kvs
    assume w: "walk (parsed_content self) pre = Inr (TDict kvs)"
    let ?new = "write_at (parsed_content self) pre (TDict (AList.update l v kvs))"
    show "set_toml self key v False = (Inr True, self\<lparr>parsed_content := ?new\<rparr>)"
      using w st loop by simp
    show p: "walk ?new pre = Inr (TDict (AList.update l v kvs))"
      using w by (rule walk_write_at)
    show "walk ?new (pre @ [l]) = Inr v"
      using walk_snoc [OF p, of l] by (simp add: update_conv')
  next
    fix p s q kvs
    assume "pre = p @ s # q \<and> walk (parsed_content self) p = Inr (TDict kvs) \<and> map_of kvs s = None"
    then have "walk (parsed_content self) pre = Inl (KeyError s)"
      by (simp add: walk_absent)
    then show "set_toml self key v False = (Inl (KeyError s), self)"
      using st loop by simp
  next
    fix p q node
    assume a: "pre @ [l] = p @ q \<and> q \<noteq> [] \<and> walk (parsed_content self) p = Inr node \<and> \<not> is_dict node"
    show "set_toml self key v False = (Inl TypeError, self)"
    proof (cases "p = pre")
      case True
      with a show ?thesis using st loop by (simp add: setitem_not_dict)
    next
      case False
      with a obtain s q' where q: "q = s # q'" by (cases q) auto
      with a False have "q' \<noteq> []" by auto
      then obtain q'' where "q' = q'' @ [l]" "pre = p @ s # q''"
        using a q by (cases q' rule: rev_cases) auto
      with a have "walk (parsed_content self) pre = Inl TypeError"
        by (simp add: walk_append getitem_not_dict)
      then show ?thesis using st loop by simp
    qed
  qed
qed

theorem set_dotted_witness:
  "set_toml \<lparr>parsed_content = TDict [(''header_one'', TDict [(''number_key'', TInt 1)])]\<rparr>
      ''header_one.number_key'' (TInt 25) False
     = (Inr True, \<lparr>parsed_content = TDict [(''header_one'', TDict [(''number_key'', TInt 25)])]\<rparr>)
   \<and> set_toml \<lparr>parsed_content = TDict [(''header_one'', TDict [(''number_key'', TInt 1)])]\<rparr>
      ''header_two.x.y'' (TInt 25) False
     = (Inl (KeyError ''header_two''),
        \<lparr>parsed_content = TDict [(''header_one'', TDict [(''number_key'', TInt 1)])]\<rparr>)
   \<and> set_toml \<lparr>parsed_content = TDict [(''a'', TList [TInt 1, TInt 2])]\<rparr> ''a.b'' (TInt 3) False
     = (Inl TypeError, \<lparr>parsed_content = TDict [(''a'', TList [TInt 1, TInt 2])]\<rparr>)"
proof -
  let ?t = "TDict [(''header_one'', TDict [(''number_key'', TInt 1)])]"
  let ?p = "\<lparr>parsed_content = ?t\<rparr>"
  let ?c = "\<lparr>parsed_content = TDict [(''a'', TList [TInt 1, TInt 2])]\<rparr>"
  have d1: "CHR ''.'' \<in> set ''header_one.number_key''" by simp
  have s1: "split_on_dot ''header_one.number_key'' = Inr ([''header_one''] @ [''number_key''])"
    by (simp add: split_on_dot_def)
  have w1: "walk (parsed_content ?p) [''header_one''] = Inr (TDict [(''number_key'', TInt 1)])"
    by simp
  have d2: "CHR ''.'' \<in> set ''header_two.x.y''" by simp
  have s2: "split_on_dot ''header_two.x.y'' = Inr ([''header_two'', ''x''] @ [''y''])"
    by (simp add: split_on_dot_def)
  have w2: "[''header_two'', ''x''] = [] @ ''header_two'' # [''x'']
      \<and> walk (parsed_content ?p) [] = Inr (TDict [(''header_one'', TDict [(''number_key'', TInt 1)])])
      \<and> map_of [(''header_one'', TDict [(''number_key'', TInt 1)])] ''header_two'' = None"
    by simp
  have d3: "CHR ''.'' \<in> set ''a.b''" by simp
  have s3: "split_on_dot ''a.b'' = Inr ([''a''] @ [''b''])"
    by (simp add: split_on_dot_def)
  have w3: "[''a''] @ [''b''] = [''a''] @ [''b''] \<and> [''b''] \<noteq> []
      \<and> walk (parsed_content ?c) [''a''] = Inr (TList [TInt 1, TInt 2])
      \<and> \<not> is_dict (TList [TInt 1, TInt 2])"
    by simp
  have 1: "set_toml ?p ''header_one.number_key'' (TInt 25) False
     = (Inr True, \<lparr>parsed_content = TDict [(''header_one'', TDict [(''number_key'', TInt 25)])]\<rparr>)"
    using set_dotted [OF d1 s1, THEN conjunct1, rule_format, OF w1, THEN conjunct1,
        of "TInt 25"]
    by simp
  have 2: "set_toml ?p ''header_two.x.y'' (TInt 25) False = (Inl (KeyError ''header_two''), ?p)"
    using set_dotted [OF d2 s2, THEN conjunct2, THEN conjunct1, rule_format, OF w2, of "TInt 25"]
    by simp
  have 3: "set_toml ?c ''a.b'' (TInt 3) False = (Inl TypeError, ?c)"
    using set_dotted [OF d3 s3, THEN conjunct2, THEN conjunct2, rule_format, OF w3, of "TInt 3"]
    by simp
  from 1 2 3 show ?thesis by (intro conjI)
qed

text \<open>
  C4, as stated, fails where the path runs into a node that is not a mapping: no entry is
  addressed by \<^verbatim>\<open>calendar.missing\<close> when \<^verbatim>\<open>calendar\<close> is \<^verbatim>\<open>5\<close>, and \<^verbatim>\<open>delete\<close>
  raises \<^verbatim>\<open>TypeError\<close>, which is not an error of a key that was not found.
\<close>

theorem delete_through_scalar_counterexample:
  "walk (TDict [(''calendar'', TInt 5)]) [''calendar'', ''missing''] = Inl TypeError
   \<and> delete \<lparr>parsed_content = TDict [(''calendar'', TInt 5)]\<rparr> ''calendar.missing'' False
       = (Inl TypeError, \<lparr>parsed_content = TDict [(''calendar'', TInt 5)]\<rparr>)"
  by (simp add: delete_def split_on_dot_def)

text \<open>
  C4, amended. With \<^verbatim>\<open>all=False\<close>, for a plain key (\<open>pre\<close> empty, \<open>l\<close> the key) and
  for a dotted one (segments \<open>pre\<close>, then \<open>l\<close>): if \<open>pre\<close> leads to a mapping that has
  \<open>l\<close>, \<^verbatim>\<open>delete\<close> removes that entry from it, returns \<^verbatim>\<open>True\<close>, and the path no
  longer resolves; if \<open>l\<close>, or a segment of \<open>pre\<close>, is absent from the mapping it is looked up
  in, \<^verbatim>\<open>delete\<close> fails with \<^verbatim>\<open>KeyError\<close> of that segment; if the path runs into a
  node that is not a mapping, it fails with \<^verbatim>\<open>TypeError\<close>. A failing \<^verbatim>\<open>delete\<close>
  leaves the adapter as it was.
\<close>

theorem delete_entry:
  assumes "if CHR ''.'' \<in> set key then split_on_dot key = Inr (pre @ [l]) else pre = [] \<and> l = key"
  shows "(\<forall>kvs x. walk (parsed_content self) pre = Inr (TDict kvs) \<and> map_of kvs l = Some x \<longrightarrow>
            delete self key False =
              (Inr True,
               self\<lparr>parsed_content :=
                 write_at (parsed_content self) pre (TDict (AList.delete l kvs))\<rparr>)
            \<and> walk (write_at (parsed_content self) pre (TDict (AList.delete l kvs))) pre
                = Inr (TDict (AList.delete l kvs))
            \<and> walk (write_at (parsed_content self) pre (TDict (AList.delete l kvs))) (pre @ [l])
                = Inl (KeyError l))
       \<and> (\<forall>kvs. walk (parsed_content self) pre = Inr (TDict kvs) \<and> map_of kvs l = None \<longrightarrow>
            delete self key False = (Inl (KeyError l), self))
       \<and> (\<forall>p s q kvs. pre = p @ s # q \<and> walk (parsed_content self) p = Inr (TDict kvs)
              \<and> map_of kvs s = None \<longrightarrow>
            delete self key False = (Inl (KeyError s), self))
       \<and> (\<forall>p q node. pre @ [l] = p @ q \<and> q \<noteq> [] \<and> walk (parsed_content self) p = Inr node
              \<and> \<not> is_dict node \<longrightarrow>
            delete self key False = (Inl TypeError, self))"
proof -
  have del: "delete self key False =
      (case delete_loop (parsed_content self) [] (parsed_content self) (pre @ [l]) of
         (Inl e, content) \<Rightarrow> (Inl e, self\<lparr>parsed_content := content\<rparr>)
       | (Inr _, content) \<Rightarrow> (Inr True, self\<lparr>parsed_content := content\<rparr>))"
    using assms by (auto simp: delete_def split: sum.splits)
  note loop = delete_loop_walk [of "parsed_content self" "[]" "parsed_content self" pre l]
  show ?thesis
  proof (intro conjI allI impI)
    fix kvs x
    assume a: "walk (parsed_content self) pre = Inr (TDict kvs) \<and> map_of kvs l = Some x"
    let ?new = "write_at (parsed_content self) pre (TDict (AList.delete l kvs))"
    show "delete self key False = (Inr True, self\<lparr>parsed_content := ?new\<rparr>)"
      using a del loop by simp
    show p: "walk ?new pre = Inr (TDict (AList.delete l kvs))"
      using a by (simp add: walk_write_at)
    from walk_snoc [OF p, of l]
    show "walk ?new (pre @ [l]) = Inl (KeyError l)" by (simp add: delete_conv')
  next
    fix kvs
    assume "walk (parsed_content self) pre = Inr (TDict kvs) \<and> map_of kvs l = None"
    then show "delete self key False = (Inl (KeyError l), self)"
      using del loop by simp
  next
    fix p s q kvs
    assume "pre = p @ s # q \<and> walk (parsed_content self) p = Inr (TDict kvs) \<and> map_of kvs s = None"
    then have "walk (parsed_content self) pre = Inl (KeyError s)"
      by (simp add: walk_absent)
    then show "delete self key False = (Inl (KeyError s), self)"
      using del loop by simp
  next
    fix p q node
    assume a: "pre @ [l] = p @ q \<and> q \<noteq> [] \<and> walk (parsed_content self) p = Inr node \<and> \<not> is_dict node"
    show "delete self key False = (Inl TypeError, self)"
    proof (cases "p = pre")
      case True
      with a show ?thesis using del loop by (simp add: delitem_not_dict)
    next
      case False
      with a obtain s q' where q: "q = s # q'" by (cases q) auto
      with a False have "q' \<noteq> []" by auto
      then obtain q'' where "q' = q'' @ [l]" "pre = p @ s # q''"
        using a q by (cases q' rule: rev_cases) auto
      with a have "walk (parsed_content self) pre = Inl TypeError"
        by (simp add: walk_append getitem_not_dict)
      then show ?thesis using del loop by simp
    qed
  qed
qed

theorem delete_entry_witness:
  "delete \<lparr>parsed_content = TDict [(''header_one'', TDict [(''number_key'', TInt 1)])]\<rparr>
      ''header_one.number_key'' False
     = (Inr True, \<lparr>parsed_content = TDict [(''header_one'', TDict [])]\<rparr>)
   \<and> delete \<lparr>parsed_content = TDict [(''header_one'', TDict [])]\<rparr>
      ''header_one.number_key'' False
     = (Inl (KeyError ''number_key''), \<lparr>parsed_content = TDict [(''header_one'', TDict [])]\<rparr>)
   \<and> delete \<lparr>parsed_content = TDict [(''header_one'', TDict [])]\<rparr> ''header_one'' False
     = (Inr True, \<lparr>parsed_content = TDict []\<rparr>)
   \<and> delete \<lparr>parsed_content = TDict [(''calendar'', TInt 5)]\<rparr> ''calendar.missing'' False
     = (Inl TypeError, \<lparr>parsed_content = TDict [(''calendar'', TInt 5)]\<rparr>)"
proof -
  let ?p = "\<lparr>parsed_content = TDict [(''header_one'', TDict [(''number_key'', TInt 1)])]\<rparr>"
  let ?q = "\<lparr>parsed_content = TDict [(''header_one'', TDict [])]\<rparr>"
  let ?c = "\<lparr>parsed_content = TDict [(''calendar'', TInt 5)]\<rparr>"
  have h1: "if CHR ''.'' \<in> set ''header_one.number_key''
      then split_on_dot ''header_one.number_key'' = Inr ([''header_one''] @ [''number_key''])
      else [''header_one''] = [] \<and> ''number_key'' = ''header_one.number_key''"
    by (simp add: split_on_dot_def)
  have h2: "if CHR ''.'' \<in> set ''header_one''
      then split_on_dot ''header_one'' = Inr ([] @ [''header_one''])
      else [] = [] \<and> ''header_one'' = ''header_one''"
    by simp
  have h3: "if CHR ''.'' \<in> set ''calendar.missing''
      then split_on_dot ''calendar.missing'' = Inr ([''calendar''] @ [''missing''])
      else [''calendar''] = [] \<and> ''missing'' = ''calendar.missing''"
    by (simp add: split_on_dot_def)
  have w1: "walk (parsed_content ?p) [''header_one''] = Inr (TDict [(''number_key'', TInt 1)])
      \<and> map_of [(''number_key'', TInt 1)] ''number_key'' = Some (TInt 1)"
    by simp
  have w2: "walk (parsed_content ?q) [''header_one''] = Inr (TDict [])
      \<and> map_of [] ''number_key'' = None"
    by simp
  have w3: "walk (parsed_content ?q) [] = Inr (TDict [(''header_one'', TDict [])])
      \<and> map_of [(''header_one'', TDict [])] ''header_one'' = Some (TDict [])"
    by simp
  have w4: "[''calendar''] @ [''missing''] = [''calendar''] @ [''missing''] \<and> [''missing''] \<noteq> []
      \<and> walk (parsed_content ?c) [''calendar''] = Inr (TInt 5) \<and> \<not> is_dict (TInt 5)"
    by simp
  have 1: "delete ?p ''header_one.number_key'' False = (Inr True, ?q)"
    using delete_entry [OF h1, THEN conjunct1, rule_format, OF w1, THEN conjunct1]
    by simp
  have 2: "delete ?q ''header_one.number_key'' False = (Inl (KeyError ''number_key''), ?q)"
    using delete_entry [OF h1, THEN conjunct2, THEN conjunct1, rule_format, OF w2]
    by simp
  have 3: "delete ?q ''header_one'' False = (Inr True, \<lparr>parsed_content = TDict []\<rparr>)"
    using delete_entry [OF h2, THEN conjunct1, rule_format, OF w3, THEN conjunct1]
    by simp
  have 4: "delete ?c ''calendar.missing'' False = (Inl TypeError, ?c)"
    using delete_entry [OF h3, THEN conjunct2, THEN conjunct2, THEN conjunct2, rule_format, OF w4]
    by simp
  from 1 2 3 4 show ?thesis by (intro conjI)
qed

text \<open>
  C5. \<^verbatim>\<open>has(k)\<close> is true if and only if the number of occurrences of \<open>k\<close> in the tree
  is greater than zero, that is, if and only if \<open>k\<close> is a key of some mapping of the tree;
  for the tree \<^verbatim>\<open>{header_one: {number_key: 1}}\<close> and the nested key
  \<^verbatim>\<open>header_one.blah\<close>, which does not exist, it is false.
\<close>

theorem has_iff_occurrences:
  "has self search_key = (0 < get_occurrence_of_key (parsed_content self) search_key)
   \<and> has self search_key = (search_key \<in> set (mapping_keys (parsed_content self)))
   \<and> has \<lparr>parsed_content = TDict [(''header_one'', TDict [(''number_key'', TInt 1)])]\<rparr>
        ''header_one.blah'' = False"
proof -
  have "has self search_key = (0 < get_occurrence_of_key (parsed_content self) search_key)"
    by (simp add: has_def)
  moreover have "has self search_key = (search_key \<in> set (mapping_keys (parsed_content self)))"
    by (simp add: has_def occurrences_count_list count_list_0_iff zero_less_iff_neq_zero)
  moreover have "has \<lparr>parsed_content = TDict [(''header_one'', TDict [(''number_key'', TInt 1)])]\<rparr>
        ''header_one.blah'' = False"
    by (simp add: has_def)
  ultimately show ?thesis by blast
qed

text \<open>
  C6. \<^verbatim>\<open>get\<close> routes as the spec says. With \<^verbatim>\<open>all=True\<close> it returns the list that
  \<^verbatim>\<open>nested_lookup\<close> collects over the whole tree; otherwise, for a key with the
  delimiter, it descends the tree one segment of \<^verbatim>\<open>split_on_dot(key)\<close> at a time;
  otherwise it subscripts the tree once with the key, which fails with \<^verbatim>\<open>KeyError\<close>
  when the key is absent. In each route \<^verbatim>\<open>parse_types\<close> decides whether the result
  is coerced.
\<close>

theorem get_routing:
  "get self key parse_types True =
     Inr (if parse_types then parse_value (TList (nested_lookup key (parsed_content self)))
          else TList (nested_lookup key (parsed_content self)))
   \<and> (CHR ''.'' \<in> set key \<longrightarrow>
        get self key parse_types False =
          (case split_on_dot key of
             Inl e \<Rightarrow> Inl e
           | Inr segments \<Rightarrow>
               (case lookup_path (parsed_content self) segments of
                  Inl e \<Rightarrow> Inl e
                | Inr r \<Rightarrow> Inr (if parse_types then parse_value r else r))))
   \<and> (CHR ''.'' \<notin> set key \<longrightarrow>
        get self key parse_types False =
          (case getitem (parsed_content self) key of
             Inl e \<Rightarrow> Inl e
           | Inr r \<Rightarrow> Inr (if parse_types then parse_value r else r)))
   \<and> (CHR ''.'' \<notin> set key \<and> map_of kvs key = None \<longrightarrow>
        get \<lparr>parsed_content = TDict kvs\<rparr> key parse_types False = Inl (KeyError key))"
  by (auto simp: get_routed routed_lookup_def split: sum.splits)

theorem get_routing_witness:
  "get \<lparr>parsed_content = TDict [(''a'', TDict [(''b'', TStr ''1''), (''a'', TInt 2)])]\<rparr> ''a'' False True
     = Inr (TList [TDict [(''b'', TStr ''1''), (''a'', TInt 2)], TInt 2])
   \<and> get \<lparr>parsed_content = TDict [(''a'', TDict [(''b'', TStr ''1''), (''a'', TInt 2)])]\<rparr> ''a.b'' False False
     = Inr (TStr ''1'')
   \<and> get \<lparr>parsed_content = TDict [(''a'', TDict [(''b'', TStr ''1''), (''a'', TInt 2)])]\<rparr> ''a'' False False
     = Inr (TDict [(''b'', TStr ''1''), (''a'', TInt 2)])
   \<and> get \<lparr>parsed_content = TDict [(''a'', TDict [(''b'', TStr ''1''), (''a'', TInt 2)])]\<rparr> ''b'' False False
     = Inl (KeyError ''b'')"
proof -
  let ?p = "\<lparr>parsed_content = TDict [(''a'', TDict [(''b'', TStr ''1''), (''a'', TInt 2)])]\<rparr>"
  have s: "split_on_dot ''a.b'' = Inr [''a'', ''b'']" by (simp add: split_on_dot_def)
  from get_routing [of ?p "''a''" False "[(''a'', TDict [(''b'', TStr ''1''), (''a'', TInt 2)])]"]
  have 1: "get ?p ''a'' False True = Inr (TList [TDict [(''b'', TStr ''1''), (''a'', TInt 2)], TInt 2])"
    and 3: "get ?p ''a'' False False = Inr (TDict [(''b'', TStr ''1''), (''a'', TInt 2)])"
    by simp_all
  from get_routing [of ?p "''a.b''" False "[]"] s
  have 2: "get ?p ''a.b'' False False = Inr (TStr ''1'')" by simp
  from get_routing [of ?p "''b''" False "[(''a'', TDict [(''b'', TStr ''1''), (''a'', TInt 2)])]"]
  have 4: "get ?p ''b'' False False = Inl (KeyError ''b'')" by simp
  from 1 2 3 4 show ?thesis by simp
qed

text \<open>
  C7. For a text on which the TOML library either decodes or raises its decode error,
  \<^verbatim>\<open>parse\<close> has two outcomes and no other: it returns the decoded tree, or it fails
  with a \<^verbatim>\<open>ParsingError\<close> that wraps the library's decode error.
\<close>

theorem parse_outcomes:
  assumes "\<forall>e. toml_loads file_contents = Inl e \<longrightarrow> (\<exists>m. e = TomlDecodeError m)"
  shows "(\<exists>tree. toml_loads file_contents = Inr tree \<and> parse toml_loads file_contents = Inr tree)
       \<or> (\<exists>m. toml_loads file_contents = Inl (TomlDecodeError m)
              \<and> parse toml_loads file_contents = Inl (ParsingError (Wrapped (TomlDecodeError m))))"
proof (cases "toml_loads file_contents")
  case (Inl e)
  with assms obtain m where "e = TomlDecodeError m" by blast
  with Inl show ?thesis by (simp add: parse_def)
next
  case (Inr tree)
  then show ?thesis by (simp add: parse_def)
qed

theorem parse_outcomes_witness:
  "parse (\<lambda>s. if s = ''a = 1'' then Inr (TDict [(''a'', TInt 1)]) else Inl (TomlDecodeError ''invalid'')) ''a = 1''
     = Inr (TDict [(''a'', TInt 1)])
   \<and> parse (\<lambda>s. if s = ''a = 1'' then Inr (TDict [(''a'', TInt 1)]) else Inl (TomlDecodeError ''invalid'')) ''a = ''
     = Inl (ParsingError (Wrapped (TomlDecodeError ''invalid'')))"
proof -
  let ?loads = "\<lambda>s. if s = ''a = 1'' then Inr (TDict [(''a'', TInt 1)]) else Inl (TomlDecodeError ''invalid'')"
  have h1: "\<forall>e. ?loads ''a = 1'' = Inl e \<longrightarrow> (\<exists>m. e = TomlDecodeError m)" by simp
  have h2: "\<forall>e. ?loads ''a = '' = Inl e \<longrightarrow> (\<exists>m. e = TomlDecodeError m)" by simp
  from parse_outcomes [of ?loads "''a = 1''", OF h1] parse_outcomes [of ?loads "''a = ''", OF h2]
  show ?thesis by simp
qed

text \<open>
  C8. When the lookup of a key succeeds with the result \<open>r\<close>, \<^verbatim>\<open>get\<close> with
  \<^verbatim>\<open>parse_types=True\<close> returns \<open>parse_value r\<close>, which for a sequence is the sequence
  of its coerced elements, and \<^verbatim>\<open>get\<close> with \<^verbatim>\<open>parse_types=False\<close> returns \<open>r\<close>
  unchanged: the string \<^verbatim>\<open>"0"\<close> and not the integer \<^verbatim>\<open>0\<close>.
\<close>

theorem get_parse_types:
  assumes "routed_lookup (parsed_content self) key all = Inr r"
  shows "get self key True all = Inr (parse_value r)
         \<and> get self key False all = Inr r
         \<and> (\<forall>xs. r = TList xs \<longrightarrow> get self key True all = Inr (TList (map parse_value xs)))"
  using assms by (simp add: get_routed)

theorem get_parse_types_witness:
  "routed_lookup (parsed_content \<lparr>parsed_content = TDict [(''calendar'', TDict [(''sunday_index'', TStr ''0'')])]\<rparr>)
      ''calendar.sunday_index'' False = Inr (TStr ''0'')
   \<and> get \<lparr>parsed_content = TDict [(''calendar'', TDict [(''sunday_index'', TStr ''0'')])]\<rparr>
        ''calendar.sunday_index'' True False = Inr (TInt 0)
   \<and> get \<lparr>parsed_content = TDict [(''calendar'', TDict [(''sunday_index'', TStr ''0'')])]\<rparr>
        ''calendar.sunday_index'' False False = Inr (TStr ''0'')
   \<and> get \<lparr>parsed_content = TDict [(''calendar'', TDict [(''sunday_index'', TStr ''0'')])]\<rparr>
        ''sunday_index'' True True = Inr (TList [TInt 0])
   \<and> get \<lparr>parsed_content = TDict [(''calendar'', TDict [(''sunday_index'', TStr ''0'')])]\<rparr>
        ''sunday_index'' False True = Inr (TList [TStr ''0''])"
proof -
  let ?p = "\<lparr>parsed_content = TDict [(''calendar'', TDict [(''sunday_index'', TStr ''0'')])]\<rparr>"
  have h: "routed_lookup (parsed_content ?p) ''calendar.sunday_index'' False = Inr (TStr ''0'')"
    by (simp add: routed_lookup_def split_on_dot_def)
  have hs: "routed_lookup (parsed_content ?p) ''sunday_index'' True = Inr (TList [TStr ''0''])"
    by (simp add: routed_lookup_def)
  have c: "parse_value (TStr ''0'') = TInt 0"
    by (simp add: coerce_def lower_def int_pattern_def unsigned_def is_digits_def
        int_value_def digits_value_def)
  have 1: "get ?p ''calendar.sunday_index'' True False = Inr (TInt 0)"
    using get_parse_types [OF h, THEN conjunct1] c by simp
  have 2: "get ?p ''calendar.sunday_index'' False False = Inr (TStr ''0'')"
    using get_parse_types [OF h, THEN conjunct2, THEN conjunct1] .
  have 3: "get ?p ''sunday_index'' True True = Inr (TList [TInt 0])"
    using get_parse_types [OF hs, THEN conjunct2, THEN conjunct2, rule_format, of "[TStr ''0'']"] c
    by simp
  have 4: "get ?p ''sunday_index'' False True = Inr (TList [TStr ''0''])"
    using get_parse_types [OF hs, THEN conjunct2, THEN conjunct1] .
  from h 1 2 3 4 show ?thesis by (intro conjI)
qed

text \<open>
  C9. With \<^verbatim>\<open>all=False\<close> and a key that contains the delimiter: if the descent reaches
  a mapping from which the next segment \<open>seg\<close> is absent, \<^verbatim>\<open>get\<close> lets the bare
  \<^verbatim>\<open>KeyError\<close> of that segment through; it is not turned into a \<^verbatim>\<open>ParsingError\<close>,
  since the handler catches \<^verbatim>\<open>TypeError\<close> only.
\<close>

theorem get_absent_segment:
  assumes "CHR ''.'' \<in> set key"
    and "split_on_dot key = Inr (pre @ seg # post)"
    and "walk (parsed_content self) pre = Inr (TDict kvs)"
    and "map_of kvs seg = None"
  shows "get self key parse_types False = Inl (KeyError seg)"
  using assms
  by (simp add: get_routed routed_lookup_def lookup_path_walk_KeyError)

theorem get_absent_segment_witness:
  "CHR ''.'' \<in> set ''header_one.blah.x''
   \<and> split_on_dot ''header_one.blah.x'' = Inr ([''header_one''] @ ''blah'' # [''x''])
   \<and> walk (parsed_content \<lparr>parsed_content = TDict [(''header_one'', TDict [(''number_key'', TInt 1)])]\<rparr>)
        [''header_one''] = Inr (TDict [(''number_key'', TInt 1)])
   \<and> map_of [(''number_key'', TInt 1)] ''blah'' = None
   \<and> get \<lparr>parsed_content = TDict [(''header_one'', TDict [(''number_key'', TInt 1)])]\<rparr>
        ''header_one.blah.x'' False False = Inl (KeyError ''blah'')"
proof -
  have h1: "CHR ''.'' \<in> set ''header_one.blah.x''" by simp
  have h2: "split_on_dot ''header_one.blah.x'' = Inr ([''header_one''] @ ''blah'' # [''x''])"
    by (simp add: split_on_dot_def)
  have h3: "walk (parsed_content \<lparr>parsed_content = TDict [(''header_one'', TDict [(''number_key'', TInt 1)])]\<rparr>)
        [''header_one''] = Inr (TDict [(''number_key'', TInt 1)])" by simp
  have h4: "map_of [(''number_key'', TInt 1)] ''blah'' = None" by simp
  from get_absent_segment [OF h1 h2 h3 h4, of False] h1 h2 h3 h4
  show ?thesis by simp
qed

text \<open>
  C10. With \<^verbatim>\<open>all=False\<close> and a key that contains the delimiter, \<^verbatim>\<open>set\<close> and
  \<^verbatim>\<open>delete\<close> write nothing before the last segment: whenever either of them fails,
  on a missing segment or on a node that is not subscriptable, the adapter and its tree
  are exactly as they were before the call.
\<close>

theorem failure_leaves_tree:
  assumes "CHR ''.'' \<in> set key"
  shows "(\<forall>e. fst (set_toml self key v False) = Inl e \<longrightarrow>
            snd (set_toml self key v False) = self)
       \<and> (\<forall>e. fst (delete self key False) = Inl e \<longrightarrow>
            snd (delete self key False) = self)"
proof (intro conjI allI impI)
  fix e
  assume f: "fst (set_toml self key v False) = Inl e"
  show "snd (set_toml self key v False) = self"
  proof (cases "split_on_dot key")
    case (Inl e')
    with assms show ?thesis by (simp add: set_toml_def)
  next
    case (Inr indexes)
    obtain out content where
      r: "set_loop (parsed_content self) [] (parsed_content self) indexes v = (out, content)"
      by (cases "set_loop (parsed_content self) [] (parsed_content self) indexes v")
    with f assms Inr obtain e' where "out = Inl e'"
      by (cases out) (simp_all add: set_toml_def)
    with r set_loop_failure [of "parsed_content self" "[]" "parsed_content self" indexes v e']
    have "content = parsed_content self" by simp
    with r assms Inr \<open>out = Inl e'\<close> show ?thesis by (simp add: set_toml_def)
  qed
next
  fix e
  assume f: "fst (delete self key False) = Inl e"
  show "snd (delete self key False) = self"
  proof (cases "split_on_dot key")
    case (Inl e')
    with assms show ?thesis by (simp add: delete_def)
  next
    case (Inr indexes)
    obtain out content where
      r: "delete_loop (parsed_content self) [] (parsed_content self) indexes = (out, content)"
      by (cases "delete_loop (parsed_content self) [] (parsed_content self) indexes")
    with f assms Inr obtain e' where "out = Inl e'"
      by (cases out) (simp_all add: delete_def)
    with r delete_loop_failure [of "parsed_content self" "[]" "parsed_content self" indexes e']
    have "content = parsed_content self" by simp
    with r assms Inr \<open>out = Inl e'\<close> show ?thesis by (simp add: delete_def)
  qed
qed

theorem failure_leaves_tree_witness:
  "fst (set_toml \<lparr>parsed_content = TDict [(''calendar'', TInt 5)]\<rparr>
          ''calendar.a.b'' (TInt 1) False) = Inl TypeError
   \<and> snd (set_toml \<lparr>parsed_content = TDict [(''calendar'', TInt 5)]\<rparr>
          ''calendar.a.b'' (TInt 1) False) = \<lparr>parsed_content = TDict [(''calendar'', TInt 5)]\<rparr>
   \<and> fst (delete \<lparr>parsed_content = TDict [(''calendar'', TInt 5)]\<rparr>
          ''header.a.b'' False) = Inl (KeyError ''header'')
   \<and> snd (delete \<lparr>parsed_content = TDict [(''calendar'', TInt 5)]\<rparr>
          ''header.a.b'' False) = \<lparr>parsed_content = TDict [(''calendar'', TInt 5)]\<rparr>"
proof -
  let ?c = "\<lparr>parsed_content = TDict [(''calendar'', TInt 5)]\<rparr>"
  have d1: "CHR ''.'' \<in> set ''calendar.a.b''" by simp
  have d2: "CHR ''.'' \<in> set ''header.a.b''" by simp
  have f1: "fst (set_toml ?c ''calendar.a.b'' (TInt 1) False) = Inl TypeError"
    by (simp add: set_toml_def split_on_dot_def)
  have f2: "fst (delete ?c ''header.a.b'' False) = Inl (KeyError ''header'')"
    by (simp add: delete_def split_on_dot_def)
  note a = failure_leaves_tree [OF d1, THEN conjunct1, rule_format, OF f1]
  note b = failure_leaves_tree [OF d2, THEN conjunct2, rule_format, OF f2]
  from f1 a f2 b show ?thesis by (intro conjI)
qed

end
